theory Spec2Isabelle
  imports Main "HOL-Library.Word"
begin

unbundle bit_operations_syntax

section \<open>Data model of \<open>lc3.c\<close>\<close>

type_synonym u16 = "16 word"
type_synonym u8 = "8 word"

subsection \<open>Enumerations\<close>

text \<open>Register indices into the array \<open>reg[R_COUNT]\<close>.\<close>

definition R_R0 :: nat where [simp]: "R_R0 = 0"
definition R_R7 :: nat where [simp]: "R_R7 = 7"
definition R_PC :: nat where [simp]: "R_PC = 8"
definition R_COND :: nat where [simp]: "R_COND = 9"
definition R_COUNT :: nat where [simp]: "R_COUNT = 10"

text \<open>Opcodes (\<open>inst >> 12\<close>).\<close>

definition OP_BR :: u16 where [simp]: "OP_BR = 0"
definition OP_ADD :: u16 where [simp]: "OP_ADD = 1"
definition OP_LD :: u16 where [simp]: "OP_LD = 2"
definition OP_ST :: u16 where [simp]: "OP_ST = 3"
definition OP_JSR :: u16 where [simp]: "OP_JSR = 4"
definition OP_AND :: u16 where [simp]: "OP_AND = 5"
definition OP_LDR :: u16 where [simp]: "OP_LDR = 6"
definition OP_STR :: u16 where [simp]: "OP_STR = 7"
definition OP_RTI :: u16 where [simp]: "OP_RTI = 8"
definition OP_NOT :: u16 where [simp]: "OP_NOT = 9"
definition OP_LDI :: u16 where [simp]: "OP_LDI = 10"
definition OP_STI :: u16 where [simp]: "OP_STI = 11"
definition OP_JMP :: u16 where [simp]: "OP_JMP = 12"
definition OP_RES :: u16 where [simp]: "OP_RES = 13"
definition OP_LEA :: u16 where [simp]: "OP_LEA = 14"
definition OP_TRAP :: u16 where [simp]: "OP_TRAP = 15"

text \<open>Condition flags: \<open>1 << 0\<close>, \<open>1 << 1\<close>, \<open>1 << 2\<close>.\<close>

definition FL_POS :: u16 where [simp]: "FL_POS = 1"
definition FL_ZRO :: u16 where [simp]: "FL_ZRO = 2"
definition FL_NEG :: u16 where [simp]: "FL_NEG = 4"

text \<open>Trap codes.\<close>

definition TRAP_GETC :: u16 where [simp]: "TRAP_GETC = 0x20"
definition TRAP_OUT :: u16 where [simp]: "TRAP_OUT = 0x21"
definition TRAP_PUTS :: u16 where [simp]: "TRAP_PUTS = 0x22"
definition TRAP_IN :: u16 where [simp]: "TRAP_IN = 0x23"
definition TRAP_PUTSP :: u16 where [simp]: "TRAP_PUTSP = 0x24"
definition TRAP_HALT :: u16 where [simp]: "TRAP_HALT = 0x25"

text \<open>Memory mapped registers.\<close>

definition MR_KBSR :: u16 where [simp]: "MR_KBSR = 0xFE00"
definition MR_KBDR :: u16 where [simp]: "MR_KBDR = 0xFE02"

definition MEMORY_MAX :: nat where [simp]: "MEMORY_MAX = 65536"

subsection \<open>Pure helpers\<close>

text \<open>
  \<open>sign_extend(uint16_t x, int bit_count)\<close>: tests bit \<open>bit_count - 1\<close> and, when it is
  set, ors in \<open>0xFFFF << bit_count\<close>; the assignment back to the 16-bit \<open>x\<close> keeps the
  low 16 bits, which is what the shift on a 16-bit word computes. Every call site passes
  a \<open>bit_count\<close> between 5 and 11.
\<close>

definition sign_extend :: "u16 \<Rightarrow> nat \<Rightarrow> u16" where
  "sign_extend x bit_count =
     (if drop_bit (bit_count - 1) x AND 1 \<noteq> 0
      then x OR push_bit bit_count 0xFFFF
      else x)"

text \<open>\<open>swap16\<close>: \<open>(x << 8) | (x >> 8)\<close>, truncated to 16 bits on return.\<close>

definition swap16 :: "u16 \<Rightarrow> u16" where
  "swap16 x = push_bit 8 x OR drop_bit 8 x"

subsection \<open>Machine state\<close>

text \<open>
  The globals \<open>memory[MEMORY_MAX]\<close> and \<open>reg[R_COUNT]\<close>, the local \<open>running\<close> of
  \<open>main\<close>, and the part of the host the program talks to: the bytes still to come on
  standard input (after the last of them the stream is at its end), the bytes written
  to standard output, and the outcome of each
  zero-timeout \<open>select\<close> poll (\<open>key_ready n\<close> is what the \<open>n\<close>-th call of \<open>check_key\<close>
  returns; \<open>polls\<close> counts the calls made so far).
\<close>

record vm =
  memory :: "u16 \<Rightarrow> u16"
  reg :: "nat \<Rightarrow> u16"
  running :: bool
  stdin :: "u8 list"
  stdout :: "u8 list"
  key_ready :: "nat \<Rightarrow> bool"
  polls :: nat

text \<open>
  Ways in which the process stops other than by leaving the main loop: \<open>abort()\<close>,
  \<open>exit(n)\<close>, and a read through a pointer that has left the \<open>memory\<close> array
  (undefined behaviour in C).
\<close>

datatype error = Abort | Exit nat | OutOfBounds

subsection \<open>Host primitives\<close>

definition check_key :: "vm \<Rightarrow> bool \<times> vm" where
  "check_key s = (key_ready s (polls s), s\<lparr>polls := Suc (polls s)\<rparr>)"

text \<open>\<open>getchar()\<close> returns an \<open>int\<close>: the next byte as a value in 0..255, or \<open>EOF = -1\<close>.\<close>

definition getchar :: "vm \<Rightarrow> int \<times> vm" where
  "getchar s = (case stdin s of [] \<Rightarrow> (- 1, s) | b # bs \<Rightarrow> (uint b, s\<lparr>stdin := bs\<rparr>))"

text \<open>\<open>putc(c, stdout)\<close> writes its argument converted to \<open>unsigned char\<close>.\<close>

definition putc :: "u8 \<Rightarrow> vm \<Rightarrow> vm" where
  "putc c s = s\<lparr>stdout := stdout s @ [c]\<rparr>"

fun put_string :: "string \<Rightarrow> vm \<Rightarrow> vm" where
  "put_string [] s = s"
| "put_string (c # cs) s = put_string cs (putc (of_char c) s)"

text \<open>
  \<open>char c = getchar(); ... (uint16_t)c\<close>. The \<open>int\<close> is narrowed to the 8-bit \<open>char\<close>,
  and the \<open>char\<close> is widened to 16 bits. Whether \<open>char\<close> is signed is fixed by the
  target ABI (signed on x86-64, unsigned on AArch64 Linux), so it is the parameter
  \<open>sc\<close>: a signed \<open>char\<close> widens by sign extension, an unsigned one by zero extension.
\<close>

definition char_to_u16 :: "bool \<Rightarrow> int \<Rightarrow> u16" where
  "char_to_u16 sc c =
     (let ch = (word_of_int c :: u8) in if sc then scast ch else ucast ch)"

subsection \<open>Flags and memory access\<close>

definition update_flags :: "nat \<Rightarrow> vm \<Rightarrow> vm" where
  "update_flags r s =
     (if reg s r = 0 then s\<lparr>reg := (reg s)(R_COND := FL_ZRO)\<rparr>
      else if drop_bit 15 (reg s r) \<noteq> 0 then s\<lparr>reg := (reg s)(R_COND := FL_NEG)\<rparr>
      else s\<lparr>reg := (reg s)(R_COND := FL_POS)\<rparr>)"

definition mem_read :: "u16 \<Rightarrow> vm \<Rightarrow> u16 \<times> vm" where
  "mem_read addr s =
     (if addr = MR_KBSR then
        (let (k, s1) = check_key s in
         if k then
           (let s2 = s1\<lparr>memory := (memory s1)(MR_KBSR := push_bit 15 1)\<rparr>;
                (c, s3) = getchar s2;
                s4 = s3\<lparr>memory := (memory s3)(MR_KBDR := word_of_int c)\<rparr>
            in (memory s4 addr, s4))
         else
           (let s2 = s1\<lparr>memory := (memory s1)(MR_KBSR := 0)\<rparr>
            in (memory s2 addr, s2)))
      else (memory s addr, s))"

definition mem_write :: "u16 \<Rightarrow> u16 \<Rightarrow> vm \<Rightarrow> vm" where
  "mem_write addr val s = s\<lparr>memory := (memory s)(addr := val)\<rparr>"

subsection \<open>Image loader\<close>

text \<open>
  \<open>fread(p, sizeof(uint16_t), nmemb, file)\<close> on the little-endian host the program is
  written for (its loader swaps every word unconditionally): complete two-byte elements
  are stored at \<open>p[0], p[1], ...\<close>, at most \<open>nmemb\<close> of them, and their number is
  returned. \<open>p\<close> is a pointer into \<open>memory\<close>, kept as the index it points at.
  When the stream ends inside an element that was still requested, C leaves that
  element's value indeterminate: \<open>partial old b\<close> stands for whatever the cell holds
  afterwards, given its old contents and the dangling byte.
\<close>

fun le_words :: "u8 list \<Rightarrow> u16 list" where
  "le_words (b0 # b1 # bs) = (ucast b0 OR push_bit 8 (ucast b1)) # le_words bs"
| "le_words bs = []"

fun store_words :: "(u16 \<Rightarrow> u16) \<Rightarrow> nat \<Rightarrow> u16 list \<Rightarrow> (u16 \<Rightarrow> u16)" where
  "store_words mem p [] = mem"
| "store_words mem p (w # ws) = store_words (mem(of_nat p := w)) (Suc p) ws"

definition fread_u16 ::
  "(u16 \<Rightarrow> u8 \<Rightarrow> u16) \<Rightarrow> (u16 \<Rightarrow> u16) \<Rightarrow> nat \<Rightarrow> nat \<Rightarrow> u8 list \<Rightarrow> nat \<times> (u16 \<Rightarrow> u16)" where
  "fread_u16 partial mem p nmemb bytes =
     (let ws = take nmemb (le_words bytes);
          mem1 = store_words mem p ws;
          q = p + length ws;
          mem2 = (if length ws < nmemb \<and> odd (length bytes)
                  then mem1(of_nat q := partial (mem1 (of_nat q)) (last bytes))
                  else mem1)
      in (length ws, mem2))"

text \<open>The loop \<open>while (read-- > 0) { *p = swap16(*p); ++p; }\<close>.\<close>

fun swap_loop :: "(u16 \<Rightarrow> u16) \<Rightarrow> nat \<Rightarrow> nat \<Rightarrow> (u16 \<Rightarrow> u16)" where
  "swap_loop mem p 0 = mem"
| "swap_loop mem p (Suc n) = swap_loop (mem(of_nat p := swap16 (mem (of_nat p)))) (Suc p) n"

text \<open>
  \<open>read_image_file\<close>. The first \<open>fread\<close> takes the two origin bytes; with fewer than two
  bytes in the stream it fails, the second \<open>fread\<close> finds the stream at its end and
  memory stays as it was. \<open>MEMORY_MAX - origin\<close> is computed in \<open>int\<close> and narrowed to
  the \<open>uint16_t max_read\<close>.
\<close>

definition read_image_file ::
  "(u16 \<Rightarrow> u8 \<Rightarrow> u16) \<Rightarrow> u8 list \<Rightarrow> (u16 \<Rightarrow> u16) \<Rightarrow> (u16 \<Rightarrow> u16)" where
  "read_image_file partial file mem =
     (case file of
        b0 # b1 # rest \<Rightarrow>
          (let origin = swap16 (ucast b0 OR push_bit 8 (ucast b1));
               max_read = (of_nat (MEMORY_MAX - unat origin) :: u16);
               p = unat origin;
               (n, mem1) = fread_u16 partial mem p (unat max_read) rest
           in swap_loop mem1 p n)
      | _ \<Rightarrow> mem)"

section \<open>The interpreter\<close>

subsection \<open>Instructions\<close>

text \<open>
  One definition for each \<open>case\<close> of the \<open>switch (op)\<close> in \<open>main\<close>, in the order of the
  source. Each takes the fetched instruction and the state after the fetch.
\<close>

definition op_add :: "u16 \<Rightarrow> vm \<Rightarrow> vm" where
  "op_add inst s =
     (let r0 = unat (drop_bit 9 inst AND 0x7);
          r1 = unat (drop_bit 6 inst AND 0x7);
          imm_flag = drop_bit 5 inst AND 0x1
      in if imm_flag \<noteq> 0 then
           (let imm5 = sign_extend (inst AND 0x1F) 5
            in update_flags r0 (s\<lparr>reg := (reg s)(r0 := reg s r1 + imm5)\<rparr>))
         else
           (let r2 = unat (inst AND 0x7)
            in update_flags r0 (s\<lparr>reg := (reg s)(r0 := reg s r1 + reg s r2)\<rparr>)))"

definition op_and :: "u16 \<Rightarrow> vm \<Rightarrow> vm" where
  "op_and inst s =
     (let r0 = unat (drop_bit 9 inst AND 0x7);
          r1 = unat (drop_bit 6 inst AND 0x7);
          imm_flag = drop_bit 5 inst AND 0x1
      in if imm_flag \<noteq> 0 then
           (let imm5 = sign_extend (inst AND 0x1F) 5
            in update_flags r0 (s\<lparr>reg := (reg s)(r0 := reg s r1 AND imm5)\<rparr>))
         else
           (let r2 = unat (inst AND 0x7)
            in update_flags r0 (s\<lparr>reg := (reg s)(r0 := reg s r1 AND reg s r2)\<rparr>)))"

definition op_not :: "u16 \<Rightarrow> vm \<Rightarrow> vm" where
  "op_not inst s =
     (let r0 = unat (drop_bit 9 inst AND 0x7);
          r1 = unat (drop_bit 6 inst AND 0x7)
      in update_flags r0 (s\<lparr>reg := (reg s)(r0 := NOT (reg s r1))\<rparr>))"

definition op_br :: "u16 \<Rightarrow> vm \<Rightarrow> vm" where
  "op_br inst s =
     (let cond_flag = drop_bit 9 inst AND 0x7;
          pc_offset = sign_extend (inst AND 0x1FF) 9
      in if cond_flag AND reg s R_COND \<noteq> 0
         then s\<lparr>reg := (reg s)(R_PC := reg s R_PC + pc_offset)\<rparr>
         else s)"

definition op_jmp :: "u16 \<Rightarrow> vm \<Rightarrow> vm" where
  "op_jmp inst s =
     (let r1 = unat (drop_bit 6 inst AND 0x7)
      in s\<lparr>reg := (reg s)(R_PC := reg s r1)\<rparr>)"

text \<open>
  In the immediate branch the source computes \<open>imm11\<close> into a local and leaves the
  block: nothing is assigned.
\<close>

definition op_jsr :: "u16 \<Rightarrow> vm \<Rightarrow> vm" where
  "op_jsr inst s =
     (let s1 = s\<lparr>reg := (reg s)(R_R7 := reg s R_PC)\<rparr>;
          imm_flag = drop_bit 11 inst AND 0x1
      in if imm_flag \<noteq> 0 then
           (let imm11 = sign_extend (inst AND 0x7FF) 11 in s1)
         else
           (let r1 = unat (drop_bit 6 inst AND 0x7)
            in s1\<lparr>reg := (reg s1)(R_PC := reg s1 r1)\<rparr>))"

definition op_ld :: "u16 \<Rightarrow> vm \<Rightarrow> vm" where
  "op_ld inst s =
     (let r0 = unat (drop_bit 9 inst AND 0x7);
          pc_offset = sign_extend (inst AND 0x1FF) 9;
          ptr = reg s R_PC + pc_offset;
          (v, s1) = mem_read ptr s
      in update_flags r0 (s1\<lparr>reg := (reg s1)(r0 := v)\<rparr>))"

definition op_ldi :: "u16 \<Rightarrow> vm \<Rightarrow> vm" where
  "op_ldi inst s =
     (let r0 = unat (drop_bit 9 inst AND 0x7);
          pc_offset = sign_extend (inst AND 0x1FF) 9;
          (ptr, s1) = mem_read (reg s R_PC + pc_offset) s;
          (v, s2) = mem_read ptr s1
      in update_flags r0 (s2\<lparr>reg := (reg s2)(r0 := v)\<rparr>))"

definition op_ldr :: "u16 \<Rightarrow> vm \<Rightarrow> vm" where
  "op_ldr inst s =
     (let r0 = unat (drop_bit 9 inst AND 0x7);
          r1 = unat (drop_bit 6 inst AND 0x7);
          offset = sign_extend (inst AND 0x3F) 6;
          ptr = reg s r1 + offset;
          (v, s1) = mem_read ptr s
      in update_flags r0 (s1\<lparr>reg := (reg s1)(r0 := v)\<rparr>))"

definition op_lea :: "u16 \<Rightarrow> vm \<Rightarrow> vm" where
  "op_lea inst s =
     (let r0 = unat (drop_bit 9 inst AND 0x7);
          pc_offset = sign_extend (inst AND 0x1FF) 9
      in update_flags r0 (s\<lparr>reg := (reg s)(r0 := reg s R_PC + pc_offset)\<rparr>))"

definition op_st :: "u16 \<Rightarrow> vm \<Rightarrow> vm" where
  "op_st inst s =
     (let r0 = unat (drop_bit 9 inst AND 0x7);
          pc_offset = sign_extend (inst AND 0x1FF) 9
      in mem_write (reg s R_PC + pc_offset) (reg s r0) s)"

definition op_sti :: "u16 \<Rightarrow> vm \<Rightarrow> vm" where
  "op_sti inst s =
     (let r0 = unat (drop_bit 9 inst AND 0x7);
          pc_offset = sign_extend (inst AND 0x1FF) 9;
          (ptr, s1) = mem_read (reg s R_PC + pc_offset) s
      in mem_write ptr (reg s1 r0) s1)"

definition op_str :: "u16 \<Rightarrow> vm \<Rightarrow> vm" where
  "op_str inst s =
     (let r0 = unat (drop_bit 9 inst AND 0x7);
          r1 = unat (drop_bit 6 inst AND 0x7);
          offset = sign_extend (inst AND 0x3F) 6;
          ptr = reg s r1 + offset
      in mem_write ptr (reg s r0) s)"

subsection \<open>Trap routines\<close>

definition trap_getc :: "bool \<Rightarrow> vm \<Rightarrow> vm" where
  "trap_getc sc s =
     (let (c, s1) = getchar s
      in update_flags R_R0 (s1\<lparr>reg := (reg s1)(R_R0 := char_to_u16 sc c)\<rparr>))"

definition trap_out :: "vm \<Rightarrow> vm" where
  "trap_out s = putc (ucast (reg s R_R0)) s"

text \<open>
  \<open>uint16_t* c = memory + reg[R_R0]; while (*c) { putc((char)*c, stdout); ++c; }\<close>.
  \<open>c\<close> is a C pointer, kept as the index it points at: \<open>++c\<close> does not wrap, and
  reading \<open>*c\<close> at index \<open>MEMORY_MAX\<close> is a read past the end of the array.
\<close>

function puts_loop :: "nat \<Rightarrow> vm \<Rightarrow> error + vm" where
  "puts_loop c s =
     (if MEMORY_MAX \<le> c then Inl OutOfBounds
      else if memory s (of_nat c) = 0 then Inr s
      else puts_loop (Suc c) (putc (ucast (memory s (of_nat c))) s))"
  by pat_completeness auto
termination
  by (relation "measure (\<lambda>(c, s). MEMORY_MAX - c)") auto

definition trap_puts :: "vm \<Rightarrow> error + vm" where
  "trap_puts s = puts_loop (unat (reg s R_R0)) s"

definition trap_in :: "bool \<Rightarrow> vm \<Rightarrow> vm" where
  "trap_in sc s =
     (let s1 = put_string ''Enter a character: '' s;
          (c, s2) = getchar s1;
          s3 = putc (word_of_int c) s2
      in update_flags R_R0 (s3\<lparr>reg := (reg s3)(R_R0 := char_to_u16 sc c)\<rparr>))"

function putsp_loop :: "nat \<Rightarrow> vm \<Rightarrow> error + vm" where
  "putsp_loop c s =
     (if MEMORY_MAX \<le> c then Inl OutOfBounds
      else if memory s (of_nat c) = 0 then Inr s
      else
        (let char1 = (ucast (memory s (of_nat c) AND 0xFF) :: u8);
             s1 = putc char1 s;
             char2 = (ucast (drop_bit 8 (memory s (of_nat c))) :: u8);
             s2 = (if char2 \<noteq> 0 then putc char2 s1 else s1)
         in putsp_loop (Suc c) s2))"
  by pat_completeness auto
termination
  by (relation "measure (\<lambda>(c, s). MEMORY_MAX - c)") auto

definition trap_putsp :: "vm \<Rightarrow> error + vm" where
  "trap_putsp s = putsp_loop (unat (reg s R_R0)) s"

definition trap_halt :: "vm \<Rightarrow> vm" where
  "trap_halt s = (put_string (''HALT'' @ [CHR 0x0A]) s)\<lparr>running := False\<rparr>"

definition op_trap :: "bool \<Rightarrow> u16 \<Rightarrow> vm \<Rightarrow> error + vm" where
  "op_trap sc inst s =
     (let s1 = s\<lparr>reg := (reg s)(R_R7 := reg s R_PC)\<rparr>;
          trap_opcode = inst AND 0xFF
      in if trap_opcode = TRAP_GETC then Inr (trap_getc sc s1)
         else if trap_opcode = TRAP_OUT then Inr (trap_out s1)
         else if trap_opcode = TRAP_PUTS then trap_puts s1
         else if trap_opcode = TRAP_IN then Inr (trap_in sc s1)
         else if trap_opcode = TRAP_PUTSP then trap_putsp s1
         else if trap_opcode = TRAP_HALT then Inr (trap_halt s1)
         else Inl Abort)"

subsection \<open>Fetch, decode, execute\<close>

text \<open>\<open>uint16_t inst = mem_read(reg[R_PC]++); uint16_t op = inst >> 12;\<close>\<close>

definition fetch :: "vm \<Rightarrow> u16 \<times> vm" where
  "fetch s =
     (let addr = reg s R_PC;
          s1 = s\<lparr>reg := (reg s)(R_PC := addr + 1)\<rparr>
      in mem_read addr s1)"

definition exec :: "bool \<Rightarrow> u16 \<Rightarrow> vm \<Rightarrow> error + vm" where
  "exec sc inst s =
     (let op = drop_bit 12 inst
      in if op = OP_ADD then Inr (op_add inst s)
         else if op = OP_AND then Inr (op_and inst s)
         else if op = OP_NOT then Inr (op_not inst s)
         else if op = OP_BR then Inr (op_br inst s)
         else if op = OP_JMP then Inr (op_jmp inst s)
         else if op = OP_JSR then Inr (op_jsr inst s)
         else if op = OP_LD then Inr (op_ld inst s)
         else if op = OP_LDI then Inr (op_ldi inst s)
         else if op = OP_LDR then Inr (op_ldr inst s)
         else if op = OP_LEA then Inr (op_lea inst s)
         else if op = OP_ST then Inr (op_st inst s)
         else if op = OP_STI then Inr (op_sti inst s)
         else if op = OP_STR then Inr (op_str inst s)
         else if op = OP_TRAP then op_trap sc inst s
         else Inl Abort)"

text \<open>One iteration of \<open>while (running)\<close>.\<close>

definition step :: "bool \<Rightarrow> vm \<Rightarrow> error + vm" where
  "step sc s = (let (inst, s1) = fetch s in exec sc inst s1)"

subsection \<open>Start-up\<close>

text \<open>
  \<open>main\<close> up to the loop. Each command-line image is either a stream of bytes or
  \<open>None\<close> when \<open>fopen\<close> fails. The globals start zeroed.
\<close>

fun load_images ::
  "(u16 \<Rightarrow> u8 \<Rightarrow> u16) \<Rightarrow> u8 list option list \<Rightarrow> (u16 \<Rightarrow> u16) \<Rightarrow> error + (u16 \<Rightarrow> u16)" where
  "load_images partial [] mem = Inr mem"
| "load_images partial (None # fs) mem = Inl (Exit 1)"
| "load_images partial (Some f # fs) mem = load_images partial fs (read_image_file partial f mem)"

definition init_vm ::
  "(u16 \<Rightarrow> u8 \<Rightarrow> u16) \<Rightarrow> u8 list option list \<Rightarrow> u8 list \<Rightarrow> (nat \<Rightarrow> bool) \<Rightarrow> error + vm" where
  "init_vm partial images inp ready =
     (if images = [] then Inl (Exit 2)
      else case load_images partial images (\<lambda>a. 0) of
             Inl e \<Rightarrow> Inl e
           | Inr mem \<Rightarrow>
               Inr \<lparr>memory = mem,
                    reg = (\<lambda>r. 0)(R_COND := FL_ZRO, R_PC := 0x3000),
                    running = True,
                    stdin = inp, stdout = [],
                    key_ready = ready, polls = 0\<rparr>)"

text \<open>
  The states the loop can be in: the one \<open>main\<close> sets up, and every state one
  iteration leads to from a state in which \<open>running\<close> still holds.
\<close>

inductive reachable :: "bool \<Rightarrow> vm \<Rightarrow> bool" for sc :: bool where
  reach_init: "init_vm partial images inp ready = Inr s \<Longrightarrow> reachable sc s"
| reach_step: "reachable sc s \<Longrightarrow> running s \<Longrightarrow> step sc s = Inr s' \<Longrightarrow> reachable sc s'"

section \<open>Concrete machine states\<close>

text \<open>
  States on which the theorems below are exercised. \<open>vm_of\<close> builds a running machine
  with empty output and no poll made yet; \<open>start_regs\<close> is the register file as \<open>main\<close>
  leaves it before the loop.
\<close>

definition vm_of :: "(u16 \<Rightarrow> u16) \<Rightarrow> (nat \<Rightarrow> u16) \<Rightarrow> u8 list \<Rightarrow> (nat \<Rightarrow> bool) \<Rightarrow> vm" where
  "vm_of mem regs inp ready =
     \<lparr>memory = mem, reg = regs, running = True, stdin = inp, stdout = [],
      key_ready = ready, polls = 0\<rparr>"

definition start_regs :: "nat \<Rightarrow> u16" where
  "start_regs = (\<lambda>r. 0)(R_COND := FL_ZRO, R_PC := 0x3000)"


definition kbd_ready_vm :: vm where
  "kbd_ready_vm = vm_of (\<lambda>a. 0) start_regs [0x42] (\<lambda>n. True)"


text \<open>
  The image \<open>30 00 F0 25\<close> (a lone \<open>HALT\<close> at \<open>0x3000\<close>) and the machine \<open>main\<close> starts
  from it; a machine about to execute \<open>ADD R0, R0, #-1\<close>.
\<close>

definition halt_image :: "u8 list" where
  "halt_image = [0x30, 0x00, 0xF0, 0x25]"

definition halt_vm :: vm where
  "halt_vm = vm_of ((\<lambda>a. 0)(0x3000 := 0xF025)) start_regs [] (\<lambda>n. False)"

definition add_vm :: vm where
  "add_vm = vm_of ((\<lambda>a. 0)(0x3000 := 0x103F)) start_regs [] (\<lambda>n. False)"

text \<open>
  Machines about to execute \<open>LEA R0, #2\<close>, \<open>JSR #1\<close>, \<open>TRAP x20\<close> and \<open>TRAP x23\<close>
  (the last two with the byte \<open>0x80\<close> waiting on standard input).
\<close>

definition lea_vm :: vm where
  "lea_vm = vm_of ((\<lambda>a. 0)(0x3000 := 0xE002)) start_regs [] (\<lambda>n. False)"

definition jsr_vm :: vm where
  "jsr_vm = vm_of ((\<lambda>a. 0)(0x3000 := 0x4801)) start_regs [] (\<lambda>n. False)"

definition getc_vm :: vm where
  "getc_vm = vm_of ((\<lambda>a. 0)(0x3000 := 0xF020)) start_regs [0x80] (\<lambda>n. False)"

definition in_vm :: vm where
  "in_vm = vm_of ((\<lambda>a. 0)(0x3000 := 0xF023)) start_regs [0x80] (\<lambda>n. False)"

text \<open>
  Two images given on one command line: a program \<open>AND R0, R0, #0; ADD R0, R0, #-1;
  TRAP x22\<close> at \<open>0x3000\<close>, and the single word \<open>0x0041\<close> at \<open>0xFFFF\<close>.
  \<open>puts_memory\<close> is the memory they leave, \<open>puts_boot_vm\<close> the machine \<open>main\<close> starts,
  \<open>puts_vm\<close> the machine two iterations later, about to execute the trap with
  \<open>R0 = 0xFFFF\<close>; \<open>putsp_vm\<close> is the same with \<open>TRAP x24\<close> in place of \<open>TRAP x22\<close>.
\<close>

definition puts_image :: "u8 list" where
  "puts_image = [0x30, 0x00, 0x50, 0x20, 0x10, 0x3F, 0xF0, 0x22]"

definition tail_image :: "u8 list" where
  "tail_image = [0xFF, 0xFF, 0x00, 0x41]"

definition puts_memory :: "u16 \<Rightarrow> u16" where
  "puts_memory = (\<lambda>a. 0)(0x3000 := 0x5020, 0x3001 := 0x103F, 0x3002 := 0xF022, 0xFFFF := 0x0041)"

definition puts_boot_vm :: vm where
  "puts_boot_vm = vm_of puts_memory start_regs [] (\<lambda>n. False)"

definition puts_vm :: vm where
  "puts_vm = vm_of puts_memory (start_regs(R_PC := 0x3002, R_R0 := 0xFFFF, R_COND := FL_NEG)) [] (\<lambda>n. False)"

definition putsp_vm :: vm where
  "putsp_vm = vm_of (puts_memory(0x3002 := 0xF024)) (start_regs(R_PC := 0x3002, R_R0 := 0xFFFF, R_COND := FL_NEG)) [] (\<lambda>n. False)"

section \<open>Auxiliary facts\<close>

declare puts_loop.simps [simp del] putsp_loop.simps [simp del]

lemma field3_le: "unat (w AND (0x7 :: u16)) \<le> 7"
  using word_and_le1 [of w 7] by (simp add: word_le_nat_alt)

lemma field3_not_special:
  "unat (w AND (0x7 :: u16)) \<noteq> 8" "unat (w AND (0x7 :: u16)) \<noteq> 9"
  using field3_le [of w] by auto

lemma bit15_iff: "drop_bit 15 (w :: u16) \<noteq> 0 \<longleftrightarrow> 0x8000 \<le> w"
proof -
  have "drop_bit 15 w \<noteq> 0 \<longleftrightarrow> unat (drop_bit 15 w) \<noteq> 0"
    by (simp add: unat_eq_0)
  also have "\<dots> \<longleftrightarrow> 32768 \<le> unat w"
    by (simp add: drop_bit_eq_div unat_div div_greater_zero_iff)
  also have "\<dots> \<longleftrightarrow> 0x8000 \<le> w"
    by (simp add: word_le_nat_alt)
  finally show ?thesis .
qed

lemma update_flags_cond_cases:
  "reg (update_flags r s) R_COND \<in> {FL_POS, FL_ZRO, FL_NEG}"
  by (simp add: update_flags_def)

lemma update_flags_other:
  "x \<noteq> R_COND \<Longrightarrow> reg (update_flags r s) x = reg s x"
  "memory (update_flags r s) = memory s"
  "running (update_flags r s) = running s"
  "stdin (update_flags r s) = stdin s"
  "stdout (update_flags r s) = stdout s"
  "key_ready (update_flags r s) = key_ready s"
  "polls (update_flags r s) = polls s"
  by (simp_all add: update_flags_def)

lemma update_flags_sign:
  assumes "r \<noteq> R_COND"
  shows "(reg (update_flags r s) R_COND = FL_NEG \<longleftrightarrow> 0x8000 \<le> reg (update_flags r s) r)
       \<and> (reg (update_flags r s) R_COND = FL_ZRO \<longleftrightarrow> reg (update_flags r s) r = 0)
       \<and> (reg (update_flags r s) R_COND = FL_POS \<longleftrightarrow>
            reg (update_flags r s) r \<noteq> 0 \<and> reg (update_flags r s) r < 0x8000)"
  using assms by (auto simp: update_flags_def bit15_iff)

lemma mem_read_reg: "reg (snd (mem_read a s)) = reg s"
  by (simp add: mem_read_def check_key_def getchar_def Let_def split: list.splits prod.splits)

lemma mem_read_running: "running (snd (mem_read a s)) = running s"
  by (simp add: mem_read_def check_key_def getchar_def Let_def split: list.splits prod.splits)

lemma putc_reg: "reg (putc c s) = reg s"
  by (simp add: putc_def)

lemma put_string_reg: "reg (put_string cs s) = reg s"
  by (induction cs arbitrary: s) (simp_all add: putc_def)

lemma puts_loop_reg: "puts_loop c s = Inr s' \<Longrightarrow> reg s' = reg s"
proof (induction c s rule: puts_loop.induct)
  case (1 c s)
  then show ?case
    by (subst (asm) (2) puts_loop.simps) (auto simp: putc_def split: if_splits)
qed

lemma putsp_loop_reg: "putsp_loop c s = Inr s' \<Longrightarrow> reg s' = reg s"
proof (induction c s rule: putsp_loop.induct)
  case (1 c s)
  then show ?case
    by (subst (asm) (2) putsp_loop.simps) (auto simp: putc_def Let_def split: if_splits)
qed

subsection \<open>The condition register through one iteration\<close>

lemma fetch_reg: "reg (snd (fetch s)) = (reg s)(R_PC := reg s R_PC + 1)"
  by (simp add: fetch_def Let_def mem_read_reg)

lemma op_add_cond: "reg (op_add inst s) R_COND \<in> {FL_POS, FL_ZRO, FL_NEG}"
  unfolding op_add_def Let_def using update_flags_cond_cases by simp
lemma op_and_cond: "reg (op_and inst s) R_COND \<in> {FL_POS, FL_ZRO, FL_NEG}"
  unfolding op_and_def Let_def using update_flags_cond_cases by simp
lemma op_not_cond: "reg (op_not inst s) R_COND \<in> {FL_POS, FL_ZRO, FL_NEG}"
  unfolding op_not_def Let_def using update_flags_cond_cases by simp
lemma op_ld_cond: "reg (op_ld inst s) R_COND \<in> {FL_POS, FL_ZRO, FL_NEG}"
  unfolding op_ld_def Let_def using update_flags_cond_cases by (simp split: prod.splits)
lemma op_ldi_cond: "reg (op_ldi inst s) R_COND \<in> {FL_POS, FL_ZRO, FL_NEG}"
  unfolding op_ldi_def Let_def using update_flags_cond_cases by (simp split: prod.splits)
lemma op_ldr_cond: "reg (op_ldr inst s) R_COND \<in> {FL_POS, FL_ZRO, FL_NEG}"
  unfolding op_ldr_def Let_def using update_flags_cond_cases by (simp split: prod.splits)
lemma op_lea_cond: "reg (op_lea inst s) R_COND \<in> {FL_POS, FL_ZRO, FL_NEG}"
  unfolding op_lea_def Let_def using update_flags_cond_cases by simp

lemma op_br_cond: "reg (op_br inst s) R_COND = reg s R_COND"
  by (simp add: op_br_def Let_def)
lemma op_jmp_cond: "reg (op_jmp inst s) R_COND = reg s R_COND"
  by (simp add: op_jmp_def Let_def)
lemma op_jsr_cond: "reg (op_jsr inst s) R_COND = reg s R_COND"
  by (simp add: op_jsr_def Let_def)
lemma op_st_cond: "reg (op_st inst s) R_COND = reg s R_COND"
  by (simp add: op_st_def Let_def mem_write_def)
lemma mem_read_reg_pair: "mem_read a s = (v, s') \<Longrightarrow> reg s' = reg s"
  using mem_read_reg [of a s] by simp

lemma op_sti_cond: "reg (op_sti inst s) R_COND = reg s R_COND"
  by (auto simp: op_sti_def Let_def mem_write_def mem_read_reg_pair split: prod.splits)
lemma op_str_cond: "reg (op_str inst s) R_COND = reg s R_COND"
  by (simp add: op_str_def Let_def mem_write_def)

lemma trap_getc_cond: "reg (trap_getc sc s) R_COND \<in> {FL_POS, FL_ZRO, FL_NEG}"
  unfolding trap_getc_def Let_def using update_flags_cond_cases by (simp split: prod.splits)
lemma trap_in_cond: "reg (trap_in sc s) R_COND \<in> {FL_POS, FL_ZRO, FL_NEG}"
  unfolding trap_in_def Let_def using update_flags_cond_cases by (simp split: prod.splits)
lemma trap_out_cond: "reg (trap_out s) R_COND = reg s R_COND"
  by (simp add: trap_out_def putc_def)
lemma trap_halt_cond: "reg (trap_halt s) R_COND = reg s R_COND"
  by (simp add: trap_halt_def put_string_reg del: put_string.simps)
lemma trap_puts_cond: "trap_puts s = Inr s' \<Longrightarrow> reg s' R_COND = reg s R_COND"
  by (simp add: trap_puts_def puts_loop_reg)
lemma trap_putsp_cond: "trap_putsp s = Inr s' \<Longrightarrow> reg s' R_COND = reg s R_COND"
  by (simp add: trap_putsp_def putsp_loop_reg)

lemma op_trap_cond:
  assumes "reg s R_COND \<in> {FL_POS, FL_ZRO, FL_NEG}" and "op_trap sc inst s = Inr s'"
  shows "reg s' R_COND \<in> {FL_POS, FL_ZRO, FL_NEG}"
proof -
  let ?s1 = "s\<lparr>reg := (reg s)(R_R7 := reg s R_PC)\<rparr>"
  have s1: "reg ?s1 R_COND = reg s R_COND" by simp
  consider (getc) "s' = trap_getc sc ?s1" | (out) "s' = trap_out ?s1"
    | (puts) "trap_puts ?s1 = Inr s'" | (inp) "s' = trap_in sc ?s1"
    | (putsp) "trap_putsp ?s1 = Inr s'" | (halt) "s' = trap_halt ?s1"
    using assms(2) unfolding op_trap_def Let_def by (auto split: if_splits)
  then show ?thesis
  proof cases
    case getc then show ?thesis using trap_getc_cond by simp
  next
    case out then show ?thesis using assms(1) s1 by (simp only: trap_out_cond)
  next
    case puts then show ?thesis using assms(1) s1 trap_puts_cond [OF puts] by simp
  next
    case inp then show ?thesis using trap_in_cond by simp
  next
    case putsp then show ?thesis using assms(1) s1 trap_putsp_cond [OF putsp] by simp
  next
    case halt then show ?thesis using assms(1) s1 by (simp only: trap_halt_cond)
  qed
qed

lemma exec_simps:
  "drop_bit 12 inst = OP_ADD \<Longrightarrow> exec sc inst s = Inr (op_add inst s)"
  "drop_bit 12 inst = OP_AND \<Longrightarrow> exec sc inst s = Inr (op_and inst s)"
  "drop_bit 12 inst = OP_NOT \<Longrightarrow> exec sc inst s = Inr (op_not inst s)"
  "drop_bit 12 inst = OP_BR \<Longrightarrow> exec sc inst s = Inr (op_br inst s)"
  "drop_bit 12 inst = OP_JMP \<Longrightarrow> exec sc inst s = Inr (op_jmp inst s)"
  "drop_bit 12 inst = OP_JSR \<Longrightarrow> exec sc inst s = Inr (op_jsr inst s)"
  "drop_bit 12 inst = OP_LD \<Longrightarrow> exec sc inst s = Inr (op_ld inst s)"
  "drop_bit 12 inst = OP_LDI \<Longrightarrow> exec sc inst s = Inr (op_ldi inst s)"
  "drop_bit 12 inst = OP_LDR \<Longrightarrow> exec sc inst s = Inr (op_ldr inst s)"
  "drop_bit 12 inst = OP_LEA \<Longrightarrow> exec sc inst s = Inr (op_lea inst s)"
  "drop_bit 12 inst = OP_ST \<Longrightarrow> exec sc inst s = Inr (op_st inst s)"
  "drop_bit 12 inst = OP_STI \<Longrightarrow> exec sc inst s = Inr (op_sti inst s)"
  "drop_bit 12 inst = OP_STR \<Longrightarrow> exec sc inst s = Inr (op_str inst s)"
  "drop_bit 12 inst = OP_TRAP \<Longrightarrow> exec sc inst s = op_trap sc inst s"
  by (simp_all add: exec_def)

lemma exec_abort:
  "drop_bit 12 inst \<notin> {OP_ADD, OP_AND, OP_NOT, OP_BR, OP_JMP, OP_JSR, OP_LD, OP_LDI, OP_LDR,
      OP_LEA, OP_ST, OP_STI, OP_STR, OP_TRAP} \<Longrightarrow> exec sc inst s = Inl Abort"
  by (simp add: exec_def)

lemma exec_cond_case:
  assumes "reg s R_COND \<in> {FL_POS, FL_ZRO, FL_NEG}"
  shows "case exec sc inst s of Inl e \<Rightarrow> True | Inr s' \<Rightarrow> reg s' R_COND \<in> {FL_POS, FL_ZRO, FL_NEG}"
proof -
  let ?op = "drop_bit 12 inst"
  consider "?op = OP_ADD" | "?op = OP_AND" | "?op = OP_NOT" | "?op = OP_BR" | "?op = OP_JMP"
    | "?op = OP_JSR" | "?op = OP_LD" | "?op = OP_LDI" | "?op = OP_LDR" | "?op = OP_LEA"
    | "?op = OP_ST" | "?op = OP_STI" | "?op = OP_STR" | "?op = OP_TRAP"
    | "?op \<notin> {OP_ADD, OP_AND, OP_NOT, OP_BR, OP_JMP, OP_JSR, OP_LD, OP_LDI, OP_LDR,
         OP_LEA, OP_ST, OP_STI, OP_STR, OP_TRAP}"
    by blast
  then show ?thesis
  proof cases
    case 1 then show ?thesis by (simp only: exec_simps sum.case op_add_cond)
  next
    case 2 then show ?thesis by (simp only: exec_simps sum.case op_and_cond)
  next
    case 3 then show ?thesis by (simp only: exec_simps sum.case op_not_cond)
  next
    case 4 then show ?thesis using assms by (simp only: exec_simps sum.case op_br_cond)
  next
    case 5 then show ?thesis using assms by (simp only: exec_simps sum.case op_jmp_cond)
  next
    case 6 then show ?thesis using assms by (simp only: exec_simps sum.case op_jsr_cond)
  next
    case 7 then show ?thesis by (simp only: exec_simps sum.case op_ld_cond)
  next
    case 8 then show ?thesis by (simp only: exec_simps sum.case op_ldi_cond)
  next
    case 9 then show ?thesis by (simp only: exec_simps sum.case op_ldr_cond)
  next
    case 10 then show ?thesis by (simp only: exec_simps sum.case op_lea_cond)
  next
    case 11 then show ?thesis using assms by (simp only: exec_simps sum.case op_st_cond)
  next
    case 12 then show ?thesis using assms by (simp only: exec_simps sum.case op_sti_cond)
  next
    case 13 then show ?thesis using assms by (simp only: exec_simps sum.case op_str_cond)
  next
    case 14 then show ?thesis
      using op_trap_cond [OF assms] by (simp add: exec_simps split: sum.split)
  next
    case 15 then show ?thesis using exec_abort [of inst sc s] by simp
  qed
qed

lemma exec_cond:
  assumes "reg s R_COND \<in> {FL_POS, FL_ZRO, FL_NEG}" and "exec sc inst s = Inr s'"
  shows "reg s' R_COND \<in> {FL_POS, FL_ZRO, FL_NEG}"
  using exec_cond_case [OF assms(1), of sc inst] assms(2) by simp

lemma step_cond:
  assumes "reg s R_COND \<in> {FL_POS, FL_ZRO, FL_NEG}" and "step sc s = Inr s'"
  shows "reg s' R_COND \<in> {FL_POS, FL_ZRO, FL_NEG}"
proof -
  have "reg (snd (fetch s)) R_COND = reg s R_COND"
    by (simp add: fetch_reg)
  with assms(1) have "reg (snd (fetch s)) R_COND \<in> {FL_POS, FL_ZRO, FL_NEG}"
    by simp
  moreover from assms(2) have "exec sc (fst (fetch s)) (snd (fetch s)) = Inr s'"
    by (simp add: step_def split: prod.splits)
  ultimately show ?thesis by (rule exec_cond)
qed

lemma init_cond: "init_vm partial images inp ready = Inr s \<Longrightarrow> reg s R_COND = FL_ZRO"
  by (auto simp: init_vm_def split: if_splits sum.splits)

subsection \<open>The image loader\<close>

lemma of_nat_u16_eq_iff:
  "a < 65536 \<Longrightarrow> b < 65536 \<Longrightarrow> (of_nat a :: u16) = of_nat b \<longleftrightarrow> a = b"
  by (simp add: word_of_nat_eq_iff take_bit_nat_eq_self)

lemma swap16_le_word:
  "swap16 (ucast (b0 :: u8) OR push_bit 8 (ucast (b1 :: u8))) = push_bit 8 (ucast b0) OR ucast b1"
  unfolding swap16_def
  by (rule bit_word_eqI) (auto simp: bit_simps dest: bit_imp_le_length)

lemma length_le_words: "length (le_words bs) = length bs div 2"
  by (induction bs rule: le_words.induct) simp_all

lemma nth_le_words:
  "i < length bs div 2 \<Longrightarrow>
     le_words bs ! i = ucast (bs ! (2 * i)) OR push_bit 8 (ucast (bs ! (2 * i + 1)))"
proof (induction bs arbitrary: i rule: le_words.induct)
  case (1 b0 b1 bs)
  then show ?case by (cases i) simp_all
qed simp_all

lemma store_words_other:
  "(\<forall>i < length ws. a \<noteq> of_nat (p + i)) \<Longrightarrow> store_words mem p ws a = mem a"
proof (induction ws arbitrary: mem p)
  case Nil
  then show ?case by simp
next
  case (Cons w ws)
  have "\<forall>i<length ws. a \<noteq> of_nat (Suc p + i)"
    using Cons.prems by (metis add_Suc_shift length_Cons not_less_eq)
  moreover have "a \<noteq> of_nat p"
    using Cons.prems by (metis add.right_neutral length_Cons zero_less_Suc)
  ultimately have "store_words (mem(of_nat p := w)) (Suc p) ws a = (mem(of_nat p := w)) a"
    by (intro Cons.IH)
  also have "\<dots> = mem a"
    using \<open>a \<noteq> of_nat p\<close> by simp
  finally show ?case by simp
qed

lemma store_words_nth:
  "p + length ws \<le> 65536 \<Longrightarrow> i < length ws \<Longrightarrow> store_words mem p ws (of_nat (p + i)) = ws ! i"
proof (induction ws arbitrary: mem p i)
  case Nil
  then show ?case by simp
next
  case (Cons w ws)
  show ?case
  proof (cases i)
    case 0
    have "store_words (mem(of_nat p := w)) (Suc p) ws (of_nat p) = (mem(of_nat p := w)) (of_nat p)"
    proof (rule store_words_other, intro allI impI)
      fix j assume "j < length ws"
      then have "p < 65536" "Suc p + j < 65536" using Cons.prems(1) by simp_all
      then show "(of_nat p :: u16) \<noteq> of_nat (Suc p + j)"
        by (simp add: of_nat_u16_eq_iff del: of_nat_add of_nat_Suc)
    qed
    then show ?thesis using 0 by simp
  next
    case (Suc j)
    then have "store_words (mem(of_nat p := w)) (Suc p) ws (of_nat (Suc p + j)) = ws ! j"
      using Cons.prems by (intro Cons.IH) simp_all
    then show ?thesis using Suc by simp
  qed
qed

lemma swap_loop_other:
  "(\<forall>i < n. a \<noteq> of_nat (p + i)) \<Longrightarrow> swap_loop mem p n a = mem a"
proof (induction n arbitrary: mem p)
  case 0
  then show ?case by simp
next
  case (Suc n)
  have "\<forall>i<n. a \<noteq> of_nat (Suc p + i)"
    using Suc.prems by (metis add_Suc_shift not_less_eq)
  moreover have "a \<noteq> of_nat p"
    using Suc.prems by (metis add.right_neutral zero_less_Suc)
  ultimately have "swap_loop (mem(of_nat p := swap16 (mem (of_nat p)))) (Suc p) n a
      = (mem(of_nat p := swap16 (mem (of_nat p)))) a"
    by (intro Suc.IH)
  also have "\<dots> = mem a"
    using \<open>a \<noteq> of_nat p\<close> by simp
  finally show ?case by simp
qed

lemma swap_loop_nth:
  "p + n \<le> 65536 \<Longrightarrow> i < n \<Longrightarrow> swap_loop mem p n (of_nat (p + i)) = swap16 (mem (of_nat (p + i)))"
proof (induction n arbitrary: mem p i)
  case 0
  then show ?case by simp
next
  case (Suc n)
  let ?mem = "mem(of_nat p := swap16 (mem (of_nat p)))"
  show ?case
  proof (cases i)
    case 0
    have "swap_loop ?mem (Suc p) n (of_nat p) = ?mem (of_nat p)"
    proof (rule swap_loop_other, intro allI impI)
      fix j assume "j < n"
      then have "p < 65536" "Suc p + j < 65536" using Suc.prems(1) by simp_all
      then show "(of_nat p :: u16) \<noteq> of_nat (Suc p + j)"
        by (simp add: of_nat_u16_eq_iff del: of_nat_add of_nat_Suc)
    qed
    then show ?thesis using 0 by simp
  next
    case (Suc j)
    have ne: "(of_nat (Suc p + j) :: u16) \<noteq> of_nat p"
    proof -
      have "p < 65536" "Suc p + j < 65536" using Suc.prems(1,2) \<open>i = Suc j\<close> by simp_all
      then show ?thesis by (simp add: of_nat_u16_eq_iff del: of_nat_add of_nat_Suc)
    qed
    have "swap_loop ?mem (Suc p) n (of_nat (Suc p + j)) = swap16 (?mem (of_nat (Suc p + j)))"
      using Suc.prems \<open>i = Suc j\<close> by (intro Suc.IH) simp_all
    then show ?thesis using \<open>i = Suc j\<close> ne by (simp del: of_nat_add of_nat_Suc)
  qed
qed

lemma unat_max_read:
  assumes "(origin :: u16) \<noteq> 0"
  shows "unat (of_nat (MEMORY_MAX - unat origin) :: u16) = 65536 - unat origin"
proof -
  have "0 < unat origin" using assms by (simp add: unat_gt_0)
  then have "65536 - unat origin < 65536" by simp
  then show ?thesis by (simp add: unat_of_nat take_bit_nat_eq_self)
qed

text \<open>
  For every origin other than 0 the loader does place the big-endian words of the
  stream at \<open>memory[O], memory[O+1], ...\<close>, as far as the stream and the array go.
\<close>

lemma read_image_file_places_words:
  fixes b0 b1 :: u8
  defines "origin \<equiv> push_bit 8 (ucast b0) OR ucast b1"
  assumes nz: "origin \<noteq> 0"
    and i: "i < length rest div 2" "unat origin + i < 65536"
  shows "read_image_file partial (b0 # b1 # rest) mem (origin + of_nat i)
           = push_bit 8 (ucast (rest ! (2 * i))) OR ucast (rest ! (2 * i + 1))"
proof -
  define p where "p = unat origin"
  define nmemb where "nmemb = 65536 - p"
  define ws where "ws = take nmemb (le_words rest)"
  define n where "n = length ws"
  define mem1 where "mem1 = store_words mem p ws"
  define q where "q = p + n"
  define mem2 where "mem2 = (if n < nmemb \<and> odd (length rest)
               then mem1(of_nat q := partial (mem1 (of_nat q)) (last rest)) else mem1)"
  have o: "swap16 (ucast b0 OR push_bit 8 (ucast b1)) = origin"
    by (simp add: swap16_le_word origin_def)
  have res: "read_image_file partial (b0 # b1 # rest) mem = swap_loop mem2 p n"
    using unat_max_read [OF nz]
    by (simp add: read_image_file_def fread_u16_def o Let_def p_def nmemb_def ws_def n_def
        mem1_def q_def mem2_def del: MEMORY_MAX_def)
  have n: "i < n" "p + n \<le> 65536"
    using i by (simp_all add: length_le_words n_def ws_def nmemb_def p_def)
  have a: "origin + of_nat i = of_nat (p + i)"
    by (simp add: p_def)
  have "swap_loop mem2 p n (of_nat (p + i)) = swap16 (mem2 (of_nat (p + i)))"
    using n(2,1) by (rule swap_loop_nth)
  also have "mem2 (of_nat (p + i)) = mem1 (of_nat (p + i))"
  proof (cases "n < nmemb \<and> odd (length rest)")
    case True
    then have "q < 65536" unfolding q_def nmemb_def by linarith
    moreover have "p + i < 65536" using i(2) by (simp add: p_def)
    moreover have "p + i \<noteq> q" using n(1) by (simp add: q_def)
    ultimately have "(of_nat (p + i) :: u16) \<noteq> of_nat q"
      by (simp only: of_nat_u16_eq_iff not_False_eq_True)
    then show ?thesis using True by (simp add: mem2_def del: of_nat_add)
  next
    case False
    then show ?thesis by (simp only: mem2_def if_False)
  qed
  also have "mem1 (of_nat (p + i)) = ws ! i"
    unfolding mem1_def using n(2,1) unfolding n_def by (rule store_words_nth)
  also have "ws ! i = ucast (rest ! (2 * i)) OR push_bit 8 (ucast (rest ! (2 * i + 1)))"
    using i(1) n(1) by (simp add: nth_le_words ws_def n_def)
  finally show ?thesis
    by (simp only: res a swap16_le_word)
qed

subsection \<open>Subroutine call with an immediate offset\<close>

text \<open>With \<open>inst[11]\<close> set, \<open>OP_JSR\<close> writes \<open>R7\<close> and nothing else.\<close>

lemma op_jsr_immediate:
  "drop_bit 11 inst AND 0x1 \<noteq> 0 \<Longrightarrow> op_jsr inst s = s\<lparr>reg := (reg s)(R_R7 := reg s R_PC)\<rparr>"
  by (simp add: op_jsr_def Let_def)

subsection \<open>Widening the character read\<close>

text \<open>
  What \<open>(uint16_t)c\<close> is for a byte \<open>b\<close> read into \<open>char c\<close>: \<open>b\<close> itself where \<open>char\<close>
  is unsigned or \<open>b\<close> is below \<open>0x80\<close>, and \<open>b + 0xFF00\<close> where \<open>char\<close> is signed and
  \<open>b\<close> is \<open>0x80\<close> or above.
\<close>

lemma narrow_byte: "(word_of_int (uint (b :: u8)) :: u8) = b"
  by simp

lemma char_to_u16_unsigned: "char_to_u16 False (uint (b :: u8)) = ucast b"
  unfolding char_to_u16_def Let_def by (simp only: narrow_byte if_False)

lemma sint_byte:
  "sint (b :: u8) = (if b < 0x80 then uint b else uint b - 256)"
proof -
  have bound: "0 \<le> uint b" "uint b < 256"
    using uint_lt2p [of b] by simp_all
  have s: "sint b = take_bit 8 (uint b + 128) - 128"
    by (simp add: sint_uint signed_take_bit_eq_take_bit_shift)
  show ?thesis
  proof (cases "b < 0x80")
    case True
    then have "uint b < 128" by (simp add: word_less_def)
    then have "take_bit 8 (uint b + 128) = uint b + 128"
      using bound by (simp add: take_bit_int_eq_self)
    then show ?thesis using True s by simp
  next
    case False
    then have "128 \<le> uint b" by (simp add: word_less_def)
    have "uint b + 128 = (uint b - 128) + 1 * 256"
      by simp
    then have "(uint b + 128) mod 256 = (uint b - 128) mod 256"
      by (simp only: mod_mult_self1)
    then have "take_bit 8 (uint b + 128) = take_bit 8 (uint b - 128)"
      by (simp only: take_bit_eq_mod) simp
    also have "\<dots> = uint b - 128"
      using bound \<open>128 \<le> uint b\<close> by (simp add: take_bit_int_eq_self)
    finally show ?thesis using False s by simp
  qed
qed

lemma char_to_u16_signed:
  "char_to_u16 True (uint (b :: u8)) = (if b < 0x80 then ucast b else ucast b + 0xFF00)"
proof -
  have "char_to_u16 True (uint b) = (scast b :: u16)"
    unfolding char_to_u16_def Let_def by (simp only: narrow_byte if_True)
  also have "\<dots> = word_of_int (sint b)"
    by (rule scast_eq)
  also have "\<dots> = (if b < 0x80 then ucast b else ucast b + 0xFF00)"
    by (simp add: sint_byte)
  finally show ?thesis .
qed

lemma trap_getc_r0:
  "stdin s = b # bs \<Longrightarrow> reg (trap_getc sc s) R_R0 = char_to_u16 sc (uint b)"
  by (simp add: trap_getc_def getchar_def update_flags_other(1))

lemma trap_in_r0:
  "stdin s = b # bs \<Longrightarrow> reg (trap_in sc s) R_R0 = char_to_u16 sc (uint b)"
  by (simp add: trap_in_def getchar_def putc_def update_flags_other(1) Let_def)

section \<open>Sign extension\<close>

text \<open>
  Claim C9. The sign-extension function maps the 5-bit fields \<open>0x1F\<close>, \<open>0x10\<close> and
  \<open>0x0F\<close> to \<open>0xFFFF\<close>, \<open>0xFFF0\<close> and \<open>0x000F\<close>.
\<close>

theorem sign_extend_imm5_boundaries:
  "sign_extend 0x1F 5 = 0xFFFF \<and> sign_extend 0x10 5 = 0xFFF0 \<and> sign_extend 0x0F 5 = 0x000F"
  by (simp add: sign_extend_def)

section \<open>Memory reads\<close>







text \<open>
  Claim C10. A read of any address other than \<open>0xFE00\<close>, the keyboard data register
  \<open>0xFE02\<close> included, returns the stored word and leaves the whole machine as it was:
  memory, registers, pending input and the count of polls.
\<close>

theorem mem_read_plain_address:
  "addr \<noteq> MR_KBSR \<Longrightarrow> mem_read addr s = (memory s addr, s)"
  by (simp add: mem_read_def)

theorem mem_read_plain_address_witness:
  "MR_KBDR \<noteq> MR_KBSR \<and> mem_read MR_KBDR kbd_ready_vm = (memory kbd_ready_vm MR_KBDR, kbd_ready_vm)"
proof -
  have ne: "MR_KBDR \<noteq> MR_KBSR" by simp
  show ?thesis using ne mem_read_plain_address [OF ne, of kbd_ready_vm] by simp
qed

section \<open>The condition register\<close>

lemma init_halt: "init_vm partial [Some halt_image] [] (\<lambda>n. False) = Inr halt_vm"
  by (simp add: init_vm_def read_image_file_def fread_u16_def swap16_def Let_def halt_image_def
      halt_vm_def vm_of_def start_regs_def fun_eq_iff)

lemma step_add_vm:
  "step sc add_vm = Inr (add_vm\<lparr>reg := start_regs(R_PC := 0x3001, R_R0 := 0xFFFF, R_COND := FL_NEG)\<rparr>)"
  by (simp add: step_def fetch_def mem_read_def exec_def op_add_def update_flags_def sign_extend_def
      add_vm_def vm_of_def start_regs_def Let_def fun_eq_iff)

text \<open>
  Claim C4. The start-up of \<open>main\<close> sets \<open>COND = FL_ZRO = 2\<close>; in every state
  reachable from it the condition register holds one of 1, 2 and 4; and one
  iteration of the loop, whatever instruction it executes, leads from a state with
  that property only to states with that property.
\<close>

theorem cond_invariant:
  "(init_vm partial images inp ready = Inr s0 \<longrightarrow> reg s0 R_COND = FL_ZRO)
   \<and> (reachable sc s \<longrightarrow> reg s R_COND \<in> {FL_POS, FL_ZRO, FL_NEG})
   \<and> (reg t R_COND \<in> {FL_POS, FL_ZRO, FL_NEG} \<and> step sc t = Inr t' \<longrightarrow>
        reg t' R_COND \<in> {FL_POS, FL_ZRO, FL_NEG})"
proof (intro conjI impI)
  assume "init_vm partial images inp ready = Inr s0"
  then show "reg s0 R_COND = FL_ZRO"
    by (rule init_cond)
next
  assume "reachable sc s"
  then show "reg s R_COND \<in> {FL_POS, FL_ZRO, FL_NEG}"
  proof (induction rule: reachable.induct)
    case (reach_init partial images inp ready s)
    then show ?case using init_cond by simp
  next
    case (reach_step s s')
    then show ?case using step_cond by blast
  qed
next
  assume "reg t R_COND \<in> {FL_POS, FL_ZRO, FL_NEG} \<and> step sc t = Inr t'"
  then show "reg t' R_COND \<in> {FL_POS, FL_ZRO, FL_NEG}"
    using step_cond by blast
qed

theorem cond_invariant_witness:
  "init_vm (\<lambda>old b. old) [Some halt_image] [] (\<lambda>n. False) = Inr halt_vm
   \<and> reachable True halt_vm \<and> reg halt_vm R_COND = FL_ZRO
   \<and> reg add_vm R_COND = FL_ZRO
   \<and> step True add_vm
       = Inr (add_vm\<lparr>reg := start_regs(R_PC := 0x3001, R_R0 := 0xFFFF, R_COND := FL_NEG)\<rparr>)
   \<and> reg (add_vm\<lparr>reg := start_regs(R_PC := 0x3001, R_R0 := 0xFFFF, R_COND := FL_NEG)\<rparr>)
         R_COND = FL_NEG"
proof -
  let ?t' = "add_vm\<lparr>reg := start_regs(R_PC := 0x3001, R_R0 := 0xFFFF, R_COND := FL_NEG)\<rparr>"
  have i: "init_vm (\<lambda>old b. old) [Some halt_image] [] (\<lambda>n. False) = Inr halt_vm"
    by (rule init_halt)
  have r: "reachable True halt_vm"
    by (rule reach_init [OF i])
  have c: "reg add_vm R_COND = FL_ZRO"
    by (simp add: add_vm_def vm_of_def start_regs_def)
  have st: "step True add_vm = Inr ?t'"
    by (rule step_add_vm)
  have n: "reg ?t' R_COND = FL_NEG"
    by simp
  show ?thesis
    using i r c st n
      cond_invariant [where partial = "\<lambda>old b. old" and images = "[Some halt_image]"
        and inp = "[]" and ready = "\<lambda>n. False" and ?s0.0 = halt_vm and sc = True
        and s = halt_vm and t = add_vm and t' = ?t']
    by simp
qed

section \<open>Flag updates\<close>

lemma step_exec: "step sc s = exec sc (fst (fetch s)) (snd (fetch s))"
  by (simp add: step_def split: prod.splits)

lemma op_updates_flags:
  "\<exists>t. op_add inst s = update_flags (unat (drop_bit 9 inst AND 0x7)) t"
  "\<exists>t. op_and inst s = update_flags (unat (drop_bit 9 inst AND 0x7)) t"
  "\<exists>t. op_not inst s = update_flags (unat (drop_bit 9 inst AND 0x7)) t"
  "\<exists>t. op_ld inst s = update_flags (unat (drop_bit 9 inst AND 0x7)) t"
  "\<exists>t. op_ldi inst s = update_flags (unat (drop_bit 9 inst AND 0x7)) t"
  "\<exists>t. op_ldr inst s = update_flags (unat (drop_bit 9 inst AND 0x7)) t"
  "\<exists>t. op_lea inst s = update_flags (unat (drop_bit 9 inst AND 0x7)) t"
  by (auto simp: op_add_def op_and_def op_not_def op_ld_def op_ldi_def op_ldr_def op_lea_def
      Let_def split: prod.splits)

lemma trap_updates_flags:
  "\<exists>t. trap_getc sc s = update_flags R_R0 t"
  "\<exists>t. trap_in sc s = update_flags R_R0 t"
  by (auto simp: trap_getc_def trap_in_def Let_def split: prod.splits)

lemma exec_updates_flags:
  assumes "exec sc inst s = Inr s'"
    and "(drop_bit 12 inst \<in> {OP_ADD, OP_AND, OP_NOT, OP_LD, OP_LDI, OP_LDR, OP_LEA}
            \<and> dr = unat (drop_bit 9 inst AND 0x7))
         \<or> (drop_bit 12 inst = OP_TRAP \<and> inst AND 0xFF \<in> {TRAP_GETC, TRAP_IN} \<and> dr = R_R0)"
  shows "\<exists>t. s' = update_flags dr t \<and> dr \<noteq> R_COND"
proof -
  let ?op = "drop_bit 12 inst"
  let ?r = "unat (drop_bit 9 inst AND 0x7)"
  consider (c_add) "?op = OP_ADD" "dr = ?r" | (c_and) "?op = OP_AND" "dr = ?r"
    | (c_not) "?op = OP_NOT" "dr = ?r" | (c_ld) "?op = OP_LD" "dr = ?r"
    | (c_ldi) "?op = OP_LDI" "dr = ?r" | (c_ldr) "?op = OP_LDR" "dr = ?r"
    | (c_lea) "?op = OP_LEA" "dr = ?r"
    | (c_getc) "?op = OP_TRAP" "inst AND 0xFF = TRAP_GETC" "dr = R_R0"
    | (c_inp) "?op = OP_TRAP" "inst AND 0xFF = TRAP_IN" "dr = R_R0"
    using assms(2) by blast
  then show ?thesis
  proof cases
    case c_add
    with assms(1) have "s' = op_add inst s" by (simp only: exec_simps sum.inject)
    then show ?thesis using op_updates_flags(1) [of inst s] c_add(2) field3_not_special(2) by auto
  next
    case c_and
    with assms(1) have "s' = op_and inst s" by (simp only: exec_simps sum.inject)
    then show ?thesis using op_updates_flags(2) [of inst s] c_and(2) field3_not_special(2) by auto
  next
    case c_not
    with assms(1) have "s' = op_not inst s" by (simp only: exec_simps sum.inject)
    then show ?thesis using op_updates_flags(3) [of inst s] c_not(2) field3_not_special(2) by auto
  next
    case c_ld
    with assms(1) have "s' = op_ld inst s" by (simp only: exec_simps sum.inject)
    then show ?thesis using op_updates_flags(4) [of inst s] c_ld(2) field3_not_special(2) by auto
  next
    case c_ldi
    with assms(1) have "s' = op_ldi inst s" by (simp only: exec_simps sum.inject)
    then show ?thesis using op_updates_flags(5) [of inst s] c_ldi(2) field3_not_special(2) by auto
  next
    case c_ldr
    with assms(1) have "s' = op_ldr inst s" by (simp only: exec_simps sum.inject)
    then show ?thesis using op_updates_flags(6) [of inst s] c_ldr(2) field3_not_special(2) by auto
  next
    case c_lea
    with assms(1) have "s' = op_lea inst s" by (simp only: exec_simps sum.inject)
    then show ?thesis using op_updates_flags(7) [of inst s] c_lea(2) field3_not_special(2) by auto
  next
    case c_getc
    with assms(1) have "s' = trap_getc sc (s\<lparr>reg := (reg s)(R_R7 := reg s R_PC)\<rparr>)"
      by (simp add: exec_simps op_trap_def)
    then show ?thesis using trap_updates_flags(1) c_getc(3) by auto
  next
    case c_inp
    with assms(1) have "s' = trap_in sc (s\<lparr>reg := (reg s)(R_R7 := reg s R_PC)\<rparr>)"
      by (simp add: exec_simps op_trap_def)
    then show ?thesis using trap_updates_flags(2) c_inp(3) by auto
  qed
qed

text \<open>
  Claim C6. After an iteration that executes a flag-updating instruction (\<open>ADD\<close>,
  \<open>AND\<close>, \<open>NOT\<close>, \<open>LD\<close>, \<open>LDI\<close>, \<open>LDR\<close>, \<open>LEA\<close> with destination
  \<open>DR = inst[11:9]\<close>, or the traps \<open>GETC\<close> and \<open>IN\<close> with destination \<open>R0\<close>),
  \<open>COND\<close> is \<open>FL_NEG\<close> exactly when \<open>R[DR] \<ge> 0x8000\<close>, \<open>FL_ZRO\<close> exactly when
  \<open>R[DR] = 0\<close>, and \<open>FL_POS\<close> exactly in the remaining case.
\<close>

theorem flags_follow_destination:
  assumes "step sc s = Inr s'"
    and "inst = fst (fetch s)"
    and "(drop_bit 12 inst \<in> {OP_ADD, OP_AND, OP_NOT, OP_LD, OP_LDI, OP_LDR, OP_LEA}
            \<and> dr = unat (drop_bit 9 inst AND 0x7))
         \<or> (drop_bit 12 inst = OP_TRAP \<and> inst AND 0xFF \<in> {TRAP_GETC, TRAP_IN} \<and> dr = R_R0)"
  shows "(reg s' R_COND = FL_NEG \<longleftrightarrow> 0x8000 \<le> reg s' dr)
       \<and> (reg s' R_COND = FL_ZRO \<longleftrightarrow> reg s' dr = 0)
       \<and> (reg s' R_COND = FL_POS \<longleftrightarrow> reg s' dr \<noteq> 0 \<and> reg s' dr < 0x8000)"
proof -
  from assms(1,2) have "exec sc inst (snd (fetch s)) = Inr s'"
    by (simp add: step_exec)
  from exec_updates_flags [OF this assms(3)]
  obtain t where "s' = update_flags dr t" and "dr \<noteq> R_COND" by blast
  then show ?thesis using update_flags_sign [of dr t] by simp
qed

theorem flags_follow_destination_witness:
  "step True add_vm = Inr (add_vm\<lparr>reg := start_regs(R_PC := 0x3001, R_R0 := 0xFFFF, R_COND := FL_NEG)\<rparr>)
   \<and> fst (fetch add_vm) = 0x103F
   \<and> drop_bit 12 (0x103F :: u16) = OP_ADD \<and> unat (drop_bit 9 (0x103F :: u16) AND 0x7) = 0
   \<and> reg (add_vm\<lparr>reg := start_regs(R_PC := 0x3001, R_R0 := 0xFFFF, R_COND := FL_NEG)\<rparr>) R_COND = FL_NEG
   \<and> 0x8000 \<le> reg (add_vm\<lparr>reg := start_regs(R_PC := 0x3001, R_R0 := 0xFFFF, R_COND := FL_NEG)\<rparr>) 0"
proof -
  let ?s' = "add_vm\<lparr>reg := start_regs(R_PC := 0x3001, R_R0 := 0xFFFF, R_COND := FL_NEG)\<rparr>"
  have st: "step True add_vm = Inr ?s'" by (rule step_add_vm)
  have f: "(0x103F :: u16) = fst (fetch add_vm)"
    by (simp add: fetch_def mem_read_def add_vm_def vm_of_def start_regs_def)
  have d: "(drop_bit 12 (0x103F :: u16) \<in> {OP_ADD, OP_AND, OP_NOT, OP_LD, OP_LDI, OP_LDR, OP_LEA}
            \<and> (0::nat) = unat (drop_bit 9 (0x103F :: u16) AND 0x7))
         \<or> (drop_bit 12 (0x103F :: u16) = OP_TRAP \<and> (0x103F :: u16) AND 0xFF \<in> {TRAP_GETC, TRAP_IN} \<and> (0::nat) = R_R0)"
    by simp
  show ?thesis
    using flags_follow_destination [OF st f d] st f by (simp add: start_regs_def)
qed

section \<open>Instructions and traps on concrete machines\<close>

lemmas run_defs = step_def fetch_def mem_read_def exec_def vm_of_def start_regs_def Let_def

subsection \<open>\<open>LEA\<close>\<close>

text \<open>
  Claim C2, as stated: every \<open>LEA\<close> leaves \<open>COND\<close> unchanged. It fails on
  \<open>LEA R0, #2\<close> at \<open>0x3000\<close> with \<open>COND = FL_ZRO\<close>: the iteration ends with
  \<open>COND\<close> different from what it was.
\<close>

theorem lea_changes_cond_counterexample:
  "drop_bit 12 (fst (fetch lea_vm)) = OP_LEA \<and> \<not> isl (step True lea_vm)
   \<and> reg (projr (step True lea_vm)) R_COND \<noteq> reg lea_vm R_COND"
  by (simp add: run_defs op_lea_def update_flags_def sign_extend_def lea_vm_def)

text \<open>
  Claim C2, amended. Every iteration that executes a \<open>LEA\<close> ends normally, with
  \<open>R[DR] = PC + sext(inst[8:0], 9)\<close> for the post-fetch \<open>PC\<close> (the old \<open>PC\<close> plus
  one), and with \<open>COND\<close> set from that value: \<open>FL_ZRO\<close> when it is 0, \<open>FL_NEG\<close>
  when it is at least \<open>0x8000\<close>, \<open>FL_POS\<close> otherwise.
\<close>

theorem lea_loads_address_and_flags:
  assumes "drop_bit 12 (fst (fetch s)) = OP_LEA"
  shows "\<exists>s'. step sc s = Inr s'
    \<and> reg s' (unat (drop_bit 9 (fst (fetch s)) AND 0x7))
        = reg s R_PC + 1 + sign_extend (fst (fetch s) AND 0x1FF) 9
    \<and> reg s' R_COND =
        (if reg s R_PC + 1 + sign_extend (fst (fetch s) AND 0x1FF) 9 = 0 then FL_ZRO
         else if 0x8000 \<le> reg s R_PC + 1 + sign_extend (fst (fetch s) AND 0x1FF) 9 then FL_NEG
         else FL_POS)"
proof -
  let ?inst = "fst (fetch s)"
  let ?s1 = "snd (fetch s)"
  let ?dr = "unat (drop_bit 9 ?inst AND 0x7)"
  let ?v = "reg s R_PC + 1 + sign_extend (?inst AND 0x1FF) 9"
  have st: "step sc s = Inr (op_lea ?inst ?s1)"
    using assms by (simp only: step_exec exec_simps)
  have pc: "reg ?s1 R_PC = reg s R_PC + 1"
    by (simp add: fetch_reg)
  have dr: "?dr \<noteq> R_COND"
    using field3_not_special(2) [of "drop_bit 9 ?inst"] by simp
  have v: "reg (op_lea ?inst ?s1) ?dr = ?v"
    using dr pc by (simp add: op_lea_def Let_def update_flags_other(1))
  have c: "reg (op_lea ?inst ?s1) R_COND = (if ?v = 0 then FL_ZRO else if 0x8000 \<le> ?v then FL_NEG else FL_POS)"
    using pc by (simp add: op_lea_def Let_def update_flags_def bit15_iff)
  show ?thesis using st v c by blast
qed

theorem lea_loads_address_and_flags_witness:
  "drop_bit 12 (fst (fetch lea_vm)) = OP_LEA
   \<and> (\<exists>s'. step True lea_vm = Inr s' \<and> reg s' 0 = 0x3003 \<and> reg s' R_COND = FL_POS)"
proof -
  have h: "drop_bit 12 (fst (fetch lea_vm)) = OP_LEA"
    by (simp add: run_defs lea_vm_def)
  have f: "fst (fetch lea_vm) = 0xE002" "reg lea_vm 8 = 0x3000"
    by (simp_all add: run_defs lea_vm_def)
  show ?thesis
    using h lea_loads_address_and_flags [OF h, of True]
    by (simp add: f sign_extend_def)
qed

subsection \<open>\<open>JSR\<close>\<close>

text \<open>
  Claim C1 has \<open>JSR\<close> with \<open>inst[11]\<close> set end with \<open>PC = PC + sext(inst[10:0], 11)\<close>.
  On \<open>JSR #1\<close> (\<open>0x4801\<close>) at \<open>0x3000\<close> the iteration ends with \<open>R7 = 0x3001\<close>, as
  claimed, and with \<open>PC = 0x3001\<close>, where the claim has \<open>0x3002\<close>.
\<close>

theorem jsr_immediate_keeps_pc:
  "fst (fetch jsr_vm) = 0x4801 \<and> drop_bit 12 (0x4801 :: u16) = OP_JSR
   \<and> drop_bit 11 (0x4801 :: u16) AND 0x1 = 1
   \<and> \<not> isl (step sc jsr_vm)
   \<and> reg (projr (step sc jsr_vm)) R_R7 = 0x3001
   \<and> reg (projr (step sc jsr_vm)) R_PC = 0x3001
   \<and> 0x3001 + sign_extend (0x4801 AND 0x7FF) 11 = (0x3002 :: u16)"
  by (simp add: run_defs op_jsr_def sign_extend_def jsr_vm_def)

subsection \<open>\<open>GETC\<close> and \<open>IN\<close>\<close>

text \<open>
  Claim C3 has \<open>R0\<close> hold the byte read, zero-extended. Where \<open>char\<close> is signed,
  \<open>TRAP x20\<close> and \<open>TRAP x23\<close> reading the byte \<open>0x80\<close> end with \<open>R0 = 0xFF80\<close>; the
  zero extension of \<open>0x80\<close> is \<open>0x0080\<close>.
\<close>

theorem getc_in_sign_extend_high_byte:
  "\<not> isl (step True getc_vm) \<and> reg (projr (step True getc_vm)) R_R0 = 0xFF80
   \<and> \<not> isl (step True in_vm) \<and> reg (projr (step True in_vm)) R_R0 = 0xFF80
   \<and> stdin getc_vm = [0x80] \<and> stdin in_vm = [0x80] \<and> ucast (0x80 :: u8) = (0x0080 :: u16)"
  by (simp add: run_defs op_trap_def trap_getc_def trap_in_def getchar_def putc_def
      char_to_u16_def update_flags_def getc_vm_def in_vm_def)

subsection \<open>The loader at origin 0\<close>

text \<open>
  Claim C7 has the words after the origin placed at \<open>memory[O], memory[O+1], ...\<close>.
  With \<open>O = 0\<close> the 16-bit \<open>max_read\<close> is \<open>65536\<close> narrowed to 0, and the loader
  stores nothing: the image \<open>00 00 12 34\<close> leaves \<open>memory[0]\<close> as it was.
\<close>

theorem loader_origin_zero_loads_nothing:
  "read_image_file partial (0x00 # 0x00 # rest) mem = mem
   \<and> read_image_file partial [0x00, 0x00, 0x12, 0x34] (\<lambda>a. 0) 0 \<noteq> 0x1234"
  by (simp add: read_image_file_def fread_u16_def swap16_def Let_def)

subsection \<open>\<open>PUTS\<close> and \<open>PUTSP\<close> at the top of memory\<close>

lemma init_puts:
  "init_vm partial [Some puts_image, Some tail_image] [] (\<lambda>n. False) = Inr puts_boot_vm"
  by (simp add: init_vm_def read_image_file_def fread_u16_def swap16_def Let_def puts_image_def
      tail_image_def puts_boot_vm_def puts_memory_def vm_of_def start_regs_def fun_eq_iff)

lemma step_puts_boot:
  "step sc puts_boot_vm = Inr (vm_of puts_memory (start_regs(R_PC := 0x3001)) [] (\<lambda>n. False))"
  by (simp add: run_defs op_and_def update_flags_def sign_extend_def puts_boot_vm_def
      puts_memory_def fun_eq_iff)

lemma step_puts_second:
  "step sc (vm_of puts_memory (start_regs(R_PC := 0x3001)) [] (\<lambda>n. False)) = Inr puts_vm"
  by (simp add: run_defs op_add_def update_flags_def sign_extend_def puts_vm_def
      puts_memory_def fun_eq_iff)

lemma reachable_puts_vm: "reachable sc puts_vm"
proof -
  let ?mid = "vm_of puts_memory (start_regs(R_PC := 0x3001)) [] (\<lambda>n. False)"
  have r0: "reachable sc puts_boot_vm"
    by (rule reach_init [OF init_puts])
  have run0: "running puts_boot_vm"
    by (simp add: puts_boot_vm_def vm_of_def)
  have r1: "reachable sc ?mid"
    by (rule reach_step [OF r0 run0 step_puts_boot])
  have run1: "running ?mid"
    by (simp add: vm_of_def)
  show ?thesis
    by (rule reach_step [OF r1 run1 step_puts_second])
qed

text \<open>
  Claim C8 has every access, the string walks of \<open>PUTS\<close> and \<open>PUTSP\<close> included, stay
  inside \<open>memory\<close> by wrapping. From the two images above \<open>main\<close> reaches a running
  state with \<open>R0 = 0xFFFF\<close> and a non-zero word at \<open>0xFFFF\<close>; the \<open>PUTS\<close> executed
  there steps its pointer to index \<open>0x10000\<close> and reads past the array, and so does
  \<open>PUTSP\<close> in its place.
\<close>

theorem puts_reads_past_memory:
  "reachable sc puts_vm \<and> running puts_vm \<and> reg puts_vm R_R0 = 0xFFFF
   \<and> step sc puts_vm = Inl OutOfBounds \<and> step sc putsp_vm = Inl OutOfBounds"
proof -
  have "step sc puts_vm = Inl OutOfBounds"
    by (simp add: run_defs op_trap_def trap_puts_def puts_loop.simps putc_def puts_vm_def
        puts_memory_def)
  moreover have "step sc putsp_vm = Inl OutOfBounds"
    by (simp add: run_defs op_trap_def trap_putsp_def putsp_loop.simps putc_def putsp_vm_def
        puts_memory_def)
  moreover have "running puts_vm" "reg puts_vm R_R0 = 0xFFFF"
    by (simp_all add: puts_vm_def vm_of_def)
  ultimately show ?thesis using reachable_puts_vm by simp
qed

end
